theory Spec2Isabelle
  imports Main "HOL-Library.Product_Lexorder" "HOL-Library.AList"
begin

section \<open>Python primitives used by the stream module\<close>

text \<open>
  The module \<^verbatim>\<open>fakeredis/_stream.py\<close> is embedded as pure functions. Python's unbounded
  integers are \<^typ>\<open>int\<close>. An exception is a value of \<open>py_error\<close>; a function that can
  raise returns \<open>py_error + 'a\<close>, and a method that mutates its object returns the object
  as it is when the call ends, also when the call ends in an exception.
\<close>

datatype py_error = ValueError | IndexError | TypeError | AssertionError | UnicodeDecodeError

text \<open>
  Key strings reach the module as \<^verbatim>\<open>bytes\<close> and are decoded (UTF-8) before they are
  split. The model covers ASCII key strings, which decode to themselves. A string with a
  byte above \<open>0x7f\<close> is reported as \<open>UnicodeDecodeError\<close>: that is what Python does for a
  byte sequence that is not UTF-8, and well-formed multi-byte text is outside the model.
\<close>

definition ascii :: "string \<Rightarrow> bool" where
  "ascii b = list_all (\<lambda>c. (of_char c :: nat) < 128) b"

definition decode :: "string \<Rightarrow> py_error + string" where
  "decode b = (if ascii b then Inr b else Inl UnicodeDecodeError)"

text \<open>\<^verbatim>\<open>str.split(sep)\<close> for a separator of one character: the result is never empty.\<close>

fun split :: "char \<Rightarrow> string \<Rightarrow> string list" where
  "split sep [] = [[]]"
| "split sep (c # cs) =
     (if c = sep then [] # split sep cs
      else (case split sep cs of
              [] \<Rightarrow> [[c]]
            | w # ws \<Rightarrow> (c # w) # ws))"

text \<open>
  \<^verbatim>\<open>int(s)\<close> on text, base 10: white space around the literal is dropped, one sign is
  allowed, and the digits may be grouped by single underscores. Anything else is a
  \<open>ValueError\<close>. On ASCII text the white space is the space and the characters
  \<open>0x09\<close> to \<open>0x0D\<close>; the separators \<open>0x1C\<close> to \<open>0x1F\<close> are not dropped, and a string
  that holds one is refused. The optional limit on the number of digits of newer
  interpreters is not modelled.
\<close>

definition is_digit :: "char \<Rightarrow> bool" where
  "is_digit c = (c \<in> set ''0123456789'')"

definition is_space :: "char \<Rightarrow> bool" where
  "is_space c = (c \<in> set [CHR '' '', CHR 0x09, CHR 0x0A, CHR 0x0B, CHR 0x0C, CHR 0x0D])"

definition digit_val :: "char \<Rightarrow> int" where
  "digit_val c = int (of_char c) - 48"

definition dec :: "string \<Rightarrow> int" where
  "dec ds = foldl (\<lambda>a c. 10 * a + digit_val c) 0 ds"

fun digit_groups :: "string \<Rightarrow> bool" where
  "digit_groups [] = False"
| "digit_groups [c] = is_digit c"
| "digit_groups (c # d # r) =
     (is_digit c \<and> (if d = CHR ''_'' then digit_groups r else digit_groups (d # r)))"

definition strip :: "string \<Rightarrow> string" where
  "strip s = rev (dropWhile is_space (rev (dropWhile is_space s)))"

definition py_int :: "string \<Rightarrow> py_error + int" where
  "py_int s =
     (let t = strip s;
          neg = (t \<noteq> [] \<and> hd t = CHR ''-'');
          body = (if t \<noteq> [] \<and> (hd t = CHR ''-'' \<or> hd t = CHR ''+'') then tl t else t)
      in if digit_groups body
         then Inr ((if neg then - 1 else 1) * dec (filter (\<lambda>c. c \<noteq> CHR ''_'') body))
         else Inl ValueError)"

text \<open>\<^verbatim>\<open>f'{n}'\<close> for an integer: decimal digits, no padding, a minus sign when negative.\<close>

definition digit_char :: "nat \<Rightarrow> char" where
  "digit_char d = ''0123456789'' ! d"

fun str_of_nat :: "nat \<Rightarrow> string" where
  "str_of_nat n = (if n < 10 then [digit_char n] else str_of_nat (n div 10) @ [digit_char (n mod 10)])"

declare str_of_nat.simps [simp del]

definition str_of_int :: "int \<Rightarrow> string" where
  "str_of_int i = (if i < 0 then CHR ''-'' # str_of_nat (nat (- i)) else str_of_nat (nat i))"

section \<open>StreamEntryKey\<close>

text \<open>
  \<^verbatim>\<open>StreamEntryKey\<close> is a named tuple \<open>(ts, seq)\<close>: it is compared as a tuple, first
  by \<open>ts\<close>, then by \<open>seq\<close>, which is the lexicographic order on pairs.
\<close>

type_synonym StreamEntryKey = "int \<times> int"

abbreviation ts :: "StreamEntryKey \<Rightarrow> int" where
  "ts \<equiv> fst"

abbreviation seq :: "StreamEntryKey \<Rightarrow> int" where
  "seq \<equiv> snd"

definition encode :: "StreamEntryKey \<Rightarrow> string" where
  "encode k = str_of_int (ts k) @ ''-'' @ str_of_int (seq k)"

definition parse_str :: "string \<Rightarrow> py_error + StreamEntryKey" where
  "parse_str entry_key_str =
     (case decode entry_key_str of
        Inl e \<Rightarrow> Inl e
      | Inr text \<Rightarrow>
          (case split CHR ''-'' text of
             [] \<Rightarrow> Inl IndexError
           | [s0] \<Rightarrow> (case py_int s0 of Inl e \<Rightarrow> Inl e | Inr timestamp \<Rightarrow> Inr (timestamp, 0))
           | s0 # s1 # _ \<Rightarrow>
               (case py_int s0 of
                  Inl e \<Rightarrow> Inl e
                | Inr timestamp \<Rightarrow>
                    (case py_int s1 of
                       Inl e \<Rightarrow> Inl e
                     | Inr sequence \<Rightarrow> Inr (timestamp, sequence)))))"


text \<open>
  The canonical text of a key string, in the words of the specification: the timestamp
  and the sequence number without zero padding, joined by a dash, the sequence number 0
  when the string gives none. \<open>digits\<close> are the non-negative decimal components.
\<close>

definition digits :: "string \<Rightarrow> bool" where
  "digits ds = (ds \<noteq> [] \<and> list_all is_digit ds)"

definition unpad :: "string \<Rightarrow> string" where
  "unpad ds = (case dropWhile (\<lambda>c. c = CHR ''0'') ds of [] \<Rightarrow> ''0'' | r \<Rightarrow> r)"

definition canonical :: "string \<Rightarrow> string" where
  "canonical s =
     (case split CHR ''-'' s of
        [] \<Rightarrow> []
      | [t] \<Rightarrow> unpad t @ ''-0''
      | t # q # _ \<Rightarrow> unpad t @ ''-'' @ unpad q)"

section \<open>Python lists: indexing, deletion, slices, bisection\<close>

text \<open>
  \<^verbatim>\<open>xs[i]\<close> and \<^verbatim>\<open>del xs[i]\<close> count a negative index from the end and raise
  \<open>IndexError\<close> out of range. A slice never raises: its bounds are clamped.
\<close>

definition py_index :: "'a list \<Rightarrow> int \<Rightarrow> py_error + 'a" where
  "py_index xs i =
     (let n = int (length xs); j = (if i < 0 then i + n else i)
      in if 0 \<le> j \<and> j < n then Inr (xs ! nat j) else Inl IndexError)"

definition py_del :: "'a list \<Rightarrow> int \<Rightarrow> py_error + 'a list" where
  "py_del xs i =
     (let n = int (length xs); j = (if i < 0 then i + n else i)
      in if 0 \<le> j \<and> j < n then Inr (take (nat j) xs @ drop (Suc (nat j)) xs) else Inl IndexError)"

definition slice_bound :: "nat \<Rightarrow> int \<Rightarrow> nat" where
  "slice_bound n i = (if i < 0 then nat (max 0 (i + int n)) else min n (nat i))"

definition py_slice :: "'a list \<Rightarrow> int \<Rightarrow> int \<Rightarrow> 'a list" where
  "py_slice xs i j = drop (slice_bound (length xs) i) (take (slice_bound (length xs) j) xs)"

definition py_slice_from :: "'a list \<Rightarrow> int \<Rightarrow> 'a list" where
  "py_slice_from xs i = drop (slice_bound (length xs) i) xs"

text \<open>
  \<^verbatim>\<open>bisect.bisect_left(a, x)\<close> and \<^verbatim>\<open>bisect.bisect_right(a, x)\<close>: the loops of the
  standard library, which halve the interval \<open>[lo, hi)\<close>.
\<close>

function bisect_left_loop :: "'a::linorder list \<Rightarrow> 'a \<Rightarrow> nat \<Rightarrow> nat \<Rightarrow> nat" where
  "bisect_left_loop a x lo hi =
     (if lo < hi
      then (let mid = (lo + hi) div 2
            in if a ! mid < x then bisect_left_loop a x (mid + 1) hi
               else bisect_left_loop a x lo mid)
      else lo)"
  by pat_completeness auto
termination
  by (relation "measure (\<lambda>(a, x, lo, hi). hi - lo)") auto

declare bisect_left_loop.simps [simp del]

definition bisect_left :: "'a::linorder list \<Rightarrow> 'a \<Rightarrow> nat" where
  "bisect_left a x = bisect_left_loop a x 0 (length a)"

function bisect_right_loop :: "'a::linorder list \<Rightarrow> 'a \<Rightarrow> nat \<Rightarrow> nat \<Rightarrow> nat" where
  "bisect_right_loop a x lo hi =
     (if lo < hi
      then (let mid = (lo + hi) div 2
            in if x < a ! mid then bisect_right_loop a x lo mid
               else bisect_right_loop a x (mid + 1) hi)
      else lo)"
  by pat_completeness auto
termination
  by (relation "measure (\<lambda>(a, x, lo, hi). hi - lo)") auto

declare bisect_right_loop.simps [simp del]

definition bisect_right :: "'a::linorder list \<Rightarrow> 'a \<Rightarrow> nat" where
  "bisect_right a x = bisect_right_loop a x 0 (length a)"

section \<open>StreamEntry, StreamConsumerInfo, StreamGroup, XStream\<close>

text \<open>The field \<^verbatim>\<open>fields\<close> of an entry is \<open>entry_fields\<close> here.\<close>

record StreamEntry =
  key :: StreamEntryKey
  entry_fields :: "string list"

definition format_record :: "StreamEntry \<Rightarrow> string \<times> string list" where
  "format_record e = (encode (key e), entry_fields e)"

text \<open>
  The clock: \<open>class_attempt_time\<close> and \<open>class_success_time\<close> are the values the two calls
  of \<^verbatim>\<open>current_time()\<close> returned when the class \<^verbatim>\<open>StreamConsumerInfo\<close> was defined (the
  defaults of \<^verbatim>\<open>last_attempt\<close> and \<^verbatim>\<open>last_success\<close>), and \<open>attempt_time\<close>,
  \<open>success_time\<close> are what the two calls in \<^verbatim>\<open>group_read\<close> return.
\<close>

record clock =
  class_attempt_time :: int
  class_success_time :: int
  attempt_time :: int
  success_time :: int

record StreamConsumerInfo =
  name :: string
  pending :: int
  last_attempt :: int
  last_success :: int

definition StreamConsumerInfo_init :: "string \<Rightarrow> int \<Rightarrow> int \<Rightarrow> StreamConsumerInfo" where
  "StreamConsumerInfo_init n t_attempt t_success =
     \<lparr>name = n, pending = 0, last_attempt = t_attempt, last_success = t_success\<rparr>"

text \<open>
  A dictionary keeps insertion order: it is an association list, updated in place for a
  key it has and extended at the end for a new one. A group refers to its stream; here
  the stream is an argument of each method of the group, so that the group always sees
  the stream as it is at the call.
\<close>

record StreamGroup =
  group_name :: string
  start_key :: StreamEntryKey
  entries_read :: "int option"
  consumers :: "(string \<times> StreamConsumerInfo) list"
  last_delivered_key :: StreamEntryKey
  last_ack_key :: StreamEntryKey
  pel :: "StreamEntryKey set"

definition StreamGroup_init :: "string \<Rightarrow> StreamEntryKey \<Rightarrow> int option \<Rightarrow> StreamGroup" where
  "StreamGroup_init n k er =
     \<lparr>group_name = n, start_key = k, entries_read = er, consumers = [],
      last_delivered_key = k, last_ack_key = k, pel = {}\<rparr>"

record XStream =
  stream_values :: "StreamEntry list"
  stream_groups :: "(string \<times> StreamGroup) list"
  max_deleted_id :: StreamEntryKey
  entries_added :: int

definition XStream_init :: XStream where
  "XStream_init = \<lparr>stream_values = [], stream_groups = [], max_deleted_id = (0, 0), entries_added = 0\<rparr>"

definition len :: "XStream \<Rightarrow> int" where
  "len s = int (length (stream_values s))"

subsection \<open>Index lookup\<close>

definition find_index :: "XStream \<Rightarrow> StreamEntryKey \<Rightarrow> bool \<Rightarrow> int \<times> bool" where
  "find_index s entry_key from_left =
     (if length (stream_values s) = 0 then (0, False)
      else (let keys = map key (stream_values s);
                ind = (if from_left then bisect_left keys entry_key else bisect_right keys entry_key)
            in (int ind, ind < length (stream_values s) \<and> key (stream_values s ! ind) = entry_key)))"

definition find_index_key_as_str :: "XStream \<Rightarrow> string \<Rightarrow> py_error + int \<times> bool" where
  "find_index_key_as_str s entry_key_str =
     (if entry_key_str = ''$'' then Inr (max (len s - 1) 0, True)
      else (case parse_str entry_key_str of
              Inl e \<Rightarrow> Inl e
            | Inr ts_seq \<Rightarrow> Inr (find_index s ts_seq True)))"

definition parse_ts_seq :: "string \<Rightarrow> py_error + StreamEntryKey" where
  "parse_ts_seq ts_seq_str = (if ts_seq_str = ''$'' then Inr (0, 0) else parse_str ts_seq_str)"

subsection \<open>delete\<close>

text \<open>
  The loop of \<^verbatim>\<open>delete\<close> over the list of key strings, with the count so far. An
  exception ends the loop and leaves the stream as the earlier rounds made it.
\<close>

fun delete_loop :: "XStream \<Rightarrow> string list \<Rightarrow> int \<Rightarrow> (py_error + int) \<times> XStream" where
  "delete_loop s [] res = (Inr res, s)"
| "delete_loop s (item # lst) res =
     (case find_index_key_as_str s item of
        Inl e \<Rightarrow> (Inl e, s)
      | Inr (ind, found) \<Rightarrow>
          if found
          then (case py_index (stream_values s) ind of
                  Inl e \<Rightarrow> (Inl e, s)
                | Inr entry \<Rightarrow>
                    (case py_del (stream_values s) ind of
                       Inl e \<Rightarrow> (Inl e, s\<lparr>max_deleted_id := max (key entry) (max_deleted_id s)\<rparr>)
                     | Inr vs \<Rightarrow>
                         delete_loop
                           (s\<lparr>max_deleted_id := max (key entry) (max_deleted_id s), stream_values := vs\<rparr>)
                           lst (res + 1)))
          else delete_loop s lst res)"

definition delete :: "XStream \<Rightarrow> string list \<Rightarrow> (py_error + int) \<times> XStream" where
  "delete s lst = delete_loop s lst 0"

subsection \<open>add\<close>

text \<open>
  \<open>resolve_key\<close> is the first half of \<^verbatim>\<open>add\<close>, up to the comparison with the last
  key: the key the entry will carry, \<open>None\<close> where \<^verbatim>\<open>add\<close> returns \<^verbatim>\<open>None\<close> at once.
  \<open>now\<close> is the value of \<^verbatim>\<open>int(1000 * time.time())\<close>.
\<close>

definition generated_key :: "XStream \<Rightarrow> int \<Rightarrow> StreamEntryKey" where
  "generated_key s now =
     (let vs = stream_values s
      in if length vs > 0 \<and> ts (key (last vs)) = now \<and> seq (key (last vs)) \<ge> 0
         then (now, seq (key (last vs)) + 1)
         else (now, 0))"

definition resolve_key :: "XStream \<Rightarrow> string option \<Rightarrow> int \<Rightarrow> py_error + StreamEntryKey option" where
  "resolve_key s entry_key now =
     (case entry_key of
        None \<Rightarrow> Inr (Some (generated_key s now))
      | Some b \<Rightarrow>
          (case decode b of
             Inl e \<Rightarrow> Inl e
           | Inr k \<Rightarrow>
               if k = ''*'' then Inr (Some (generated_key s now))
               else if k = [] then Inl IndexError
               else if last k = CHR ''*''
               then (case split CHR ''-'' k of
                       [t, _] \<Rightarrow>
                         (case py_int t of
                            Inl e \<Rightarrow> Inl e
                          | Inr t' \<Rightarrow>
                              (let vs = stream_values s
                               in if length vs > 0 \<and> t' = ts (key (last vs))
                                  then Inr (Some (t', seq (key (last vs)) + 1))
                                  else Inr (Some (t', 0))))
                     | _ \<Rightarrow> Inr None)
               else (case parse_str k of Inl e \<Rightarrow> Inl e | Inr ts_seq \<Rightarrow> Inr (Some ts_seq))))"

definition add :: "XStream \<Rightarrow> string list \<Rightarrow> string option \<Rightarrow> int \<Rightarrow> (py_error + string option) \<times> XStream" where
  "add s flds entry_key now =
     (if length flds mod 2 \<noteq> 0 then (Inl AssertionError, s)
      else (case resolve_key s entry_key now of
              Inl e \<Rightarrow> (Inl e, s)
            | Inr None \<Rightarrow> (Inr None, s)
            | Inr (Some ts_seq) \<Rightarrow>
                if length (stream_values s) > 0 \<and> key (last (stream_values s)) > ts_seq
                then (Inr None, s)
                else (Inr (Some (encode ts_seq)),
                      s\<lparr>stream_values := stream_values s @ [\<lparr>key = ts_seq, entry_fields = flds\<rparr>],
                        entries_added := entries_added s + 1\<rparr>)))"

subsection \<open>trim\<close>

text \<open>
  \<open>start_ind\<close> stays \<^verbatim>\<open>None\<close> when neither \<open>max_length\<close> nor \<open>start_entry_key\<close> is given,
  and \<^verbatim>\<open>max(None, 0)\<close> raises \<open>TypeError\<close>. The slice \<^verbatim>\<open>self._values[res:]\<close> follows
  Python's rules for a negative bound.
\<close>

definition trim :: "XStream \<Rightarrow> int option \<Rightarrow> string option \<Rightarrow> int option \<Rightarrow> (py_error + int) \<times> XStream" where
  "trim s max_length start_entry_key limit =
     (if max_length \<noteq> None \<and> start_entry_key \<noteq> None then (Inl ValueError, s)
      else (case (case max_length of
                    Some m \<Rightarrow> Inr (Some (len s - m))
                  | None \<Rightarrow>
                      (case start_entry_key of
                         Some k \<Rightarrow>
                           (case find_index_key_as_str s k of
                              Inl e \<Rightarrow> Inl e
                            | Inr (ind, exact) \<Rightarrow> Inr (Some ind))
                       | None \<Rightarrow> Inr None)) of
              Inl e \<Rightarrow> (Inl e, s)
            | Inr None \<Rightarrow> (Inl TypeError, s)
            | Inr (Some start_ind) \<Rightarrow>
                (let res = max start_ind 0;
                     res = (case limit of None \<Rightarrow> res | Some l \<Rightarrow> min start_ind l)
                 in (Inr res, s\<lparr>stream_values := py_slice_from (stream_values s) res\<rparr>))))"

subsection \<open>stream_read\<close>

definition stream_read :: "XStream \<Rightarrow> StreamEntryKey \<Rightarrow> int option \<Rightarrow> StreamEntry list" where
  "stream_read s start_key' count =
     (let (ind, found) = find_index s start_key' True;
          start_ind = (if found then ind + 1 else ind)
      in if start_ind \<ge> len s then []
         else (let end_ind = (case count of
                                None \<Rightarrow> len s
                              | Some c \<Rightarrow> if start_ind + c \<ge> len s then len s else start_ind + c)
               in py_slice (stream_values s) start_ind end_ind))"

subsection \<open>Consumer groups\<close>

record GroupInfo =
  info_name :: string
  info_consumers :: nat
  info_pending :: int
  info_last_delivered_id :: string
  info_entries_read :: "int option"
  info_lag :: int

text \<open>
  \<open>or0 v\<close> is \<^verbatim>\<open>(v or 0)\<close>. \<open>group_lag\<close> is the part of \<^verbatim>\<open>group_info\<close> that computes
  \<open>lag\<close>: its first branch subtracts \<^verbatim>\<open>self.entries_read\<close> itself, which raises
  \<open>TypeError\<close> on \<^verbatim>\<open>None\<close>. The dictionary \<^verbatim>\<open>group_info\<close> flattens into its result is
  the record \<open>GroupInfo\<close>.
\<close>

definition or0 :: "int option \<Rightarrow> int" where
  "or0 v = (case v of None \<Rightarrow> 0 | Some n \<Rightarrow> n)"

definition group_lag :: "StreamGroup \<Rightarrow> XStream \<Rightarrow> py_error + int" where
  "group_lag g s =
     (let start_index = fst (find_index s (start_key g) True);
          last_delivered_index = fst (find_index s (last_delivered_key g) True)
      in if start_index + or0 (entries_read g) > len s
         then (case entries_read g of
                 None \<Rightarrow> Inl TypeError
               | Some er \<Rightarrow> Inr (len s - start_index - er))
         else Inr (len s - 1 - last_delivered_index))"

definition group_info :: "StreamGroup \<Rightarrow> XStream \<Rightarrow> py_error + GroupInfo" where
  "group_info g s =
     (let last_delivered_index = fst (find_index s (last_delivered_key g) True);
          last_ack_index = fst (find_index s (last_ack_key g) True)
      in case group_lag g s of
           Inl e \<Rightarrow> Inl e
         | Inr lag \<Rightarrow>
             Inr \<lparr>info_name = group_name g,
                  info_consumers = length (consumers g),
                  info_pending = last_delivered_index - last_ack_index,
                  info_last_delivered_id = encode (last_delivered_key g),
                  info_entries_read = entries_read g,
                  info_lag = lag\<rparr>)"

definition group_read ::
  "StreamGroup \<Rightarrow> XStream \<Rightarrow> string \<Rightarrow> string \<Rightarrow> int option \<Rightarrow> bool \<Rightarrow> clock
     \<Rightarrow> (py_error + (string \<times> string list) list) \<times> StreamGroup" where
  "group_read g s consumer_name start_id count noack clk =
     (let g1 = (if map_of (consumers g) consumer_name = None
                then g\<lparr>consumers := AList.update consumer_name
                        (StreamConsumerInfo_init consumer_name
                           (class_attempt_time clk) (class_success_time clk)) (consumers g)\<rparr>
                else g)
      in case (if start_id = ''>'' then Inr (last_delivered_key g1)
               else (case parse_str start_id of
                       Inl e \<Rightarrow> Inl e
                     | Inr k \<Rightarrow> Inr (max k (last_delivered_key g1)))) of
           Inl e \<Rightarrow> (Inl e, g1)
         | Inr start_key' \<Rightarrow>
             (let items = stream_read s start_key' count;
                  g2 = (if \<not> noack then g1\<lparr>pel := pel g1 \<union> set (map key items)\<rparr> else g1);
                  g3 = (if length items > 0
                        then g2\<lparr>last_delivered_key := max (last_delivered_key g2) (key (last items)),
                                entries_read := Some (or0 (entries_read g2) + int (length items))\<rparr>
                        else g2);
                  g4 = g3\<lparr>consumers := AList.map_entry consumer_name
                            (\<lambda>c. c\<lparr>last_attempt := attempt_time clk,
                                    last_success := success_time clk,
                                    pending := pending c + int (length items)\<rparr>)
                            (consumers g3)\<rparr>
              in (Inr (map format_record items), g4)))"

subsection \<open>Runs of stream operations\<close>

datatype stream_op =
    Add "string list" "string option" int
  | Delete "string list"
  | Trim "int option" "string option" "int option"

fun apply_op :: "XStream \<Rightarrow> stream_op \<Rightarrow> XStream" where
  "apply_op s (Add flds entry_key now) = snd (add s flds entry_key now)"
| "apply_op s (Delete lst) = snd (delete s lst)"
| "apply_op s (Trim max_length start_entry_key limit) = snd (trim s max_length start_entry_key limit)"

definition run :: "stream_op list \<Rightarrow> XStream" where
  "run ops = foldl apply_op XStream_init ops"

definition keys_of :: "XStream \<Rightarrow> StreamEntryKey list" where
  "keys_of s = map key (stream_values s)"

section \<open>Key strings\<close>

lemma split_no_sep: "sep \<notin> set a \<Longrightarrow> split sep a = [a]"
  by (induction a) auto

lemma split_append: "sep \<notin> set a \<Longrightarrow> split sep (a @ sep # b) = a # split sep b"
  by (induction a) auto

lemma split_not_Nil: "split sep s \<noteq> []"
  by (induction s) (auto split: list.splits)

lemma is_digit_cases:
  "is_digit c \<longleftrightarrow> c = CHR ''0'' \<or> c = CHR ''1'' \<or> c = CHR ''2'' \<or> c = CHR ''3'' \<or> c = CHR ''4'' \<or>
     c = CHR ''5'' \<or> c = CHR ''6'' \<or> c = CHR ''7'' \<or> c = CHR ''8'' \<or> c = CHR ''9''"
  by (auto simp: is_digit_def)

lemma digit_char_val: "is_digit c \<Longrightarrow> digit_char (nat (digit_val c)) = c"
  by (auto simp: is_digit_cases digit_val_def digit_char_def)

lemma digit_val_range: "is_digit c \<Longrightarrow> 0 \<le> digit_val c \<and> digit_val c < 10"
  by (auto simp: is_digit_cases digit_val_def)

lemma digit_val_zero: "is_digit c \<Longrightarrow> digit_val c = 0 \<longleftrightarrow> c = CHR ''0''"
  by (auto simp: is_digit_cases digit_val_def)

lemma is_digit_plain:
  "is_digit c \<Longrightarrow> \<not> is_space c \<and> c \<noteq> CHR ''-'' \<and> c \<noteq> CHR ''+'' \<and> c \<noteq> CHR ''_'' \<and> (of_char c :: nat) < 128"
  by (auto simp: is_digit_cases is_space_def)

lemma dec_snoc: "dec (ds @ [c]) = 10 * dec ds + digit_val c"
  by (simp add: dec_def)

lemma dec_nonneg: "list_all is_digit ds \<Longrightarrow> 0 \<le> dec ds"
proof (induction ds rule: rev_induct)
  case Nil
  show ?case by (simp add: dec_def)
next
  case (snoc c ds)
  then show ?case using digit_val_range [of c] by (simp add: dec_snoc)
qed

lemma dec_zero_iff: "list_all is_digit ds \<Longrightarrow> dec ds = 0 \<longleftrightarrow> list_all (\<lambda>c. c = CHR ''0'') ds"
proof (induction ds rule: rev_induct)
  case Nil
  show ?case by (simp add: dec_def)
next
  case (snoc c ds)
  then have d: "is_digit c" and ds: "list_all is_digit ds" by simp_all
  from dec_nonneg [OF ds] digit_val_range [OF d] digit_val_zero [OF d] snoc.IH [OF ds]
  show ?case by (auto simp: dec_snoc)
qed

lemma str_of_nat_snoc:
  "d < 10 \<Longrightarrow> str_of_nat (10 * n + d) = (if n = 0 then [digit_char d] else str_of_nat n @ [digit_char d])"
  by (subst str_of_nat.simps) auto

lemma str_of_nat_small: "n < 10 \<Longrightarrow> str_of_nat n = [digit_char n]"
  by (subst str_of_nat.simps) simp

lemma unpad_snoc:
  "unpad (ds @ [c]) = (if list_all (\<lambda>x. x = CHR ''0'') ds then [c] else unpad ds @ [c])"
proof (cases "list_all (\<lambda>x. x = CHR ''0'') ds")
  case True
  then have "dropWhile (\<lambda>c. c = CHR ''0'') ds = []" by (simp add: list_all_iff)
  with True show ?thesis by (simp add: unpad_def dropWhile_append list_all_iff)
next
  case False
  then obtain x where "x \<in> set ds" "x \<noteq> CHR ''0''" by (auto simp: list_all_iff)
  then have "dropWhile (\<lambda>c. c = CHR ''0'') (ds @ [c]) = dropWhile (\<lambda>c. c = CHR ''0'') ds @ [c]"
    and "dropWhile (\<lambda>c. c = CHR ''0'') ds \<noteq> []"
    by (auto simp: dropWhile_append1)
  with False show ?thesis by (auto simp: unpad_def split: list.splits)
qed

lemma str_of_nat_dec: "digits ds \<Longrightarrow> str_of_nat (nat (dec ds)) = unpad ds"
  unfolding digits_def
proof (induction ds rule: rev_induct)
  case Nil
  then show ?case by simp
next
  case (snoc c ds)
  then have d: "is_digit c" and ds: "list_all is_digit ds" by simp_all
  have n: "nat (dec (ds @ [c])) = 10 * nat (dec ds) + nat (digit_val c)"
    using dec_nonneg [OF ds] digit_val_range [OF d] by (simp add: dec_snoc nat_add_distrib nat_mult_distrib)
  have lt: "nat (digit_val c) < 10" using digit_val_range [OF d] by auto
  show ?case
  proof (cases "ds = []")
    case True
    then show ?thesis using d lt
      by (simp add: dec_def str_of_nat_small digit_char_val unpad_def)
  next
    case False
    with snoc.IH ds have ih: "str_of_nat (nat (dec ds)) = unpad ds" by simp
    have z: "nat (dec ds) = 0 \<longleftrightarrow> list_all (\<lambda>c. c = CHR ''0'') ds"
      using dec_zero_iff [OF ds] dec_nonneg [OF ds] by simp
    show ?thesis
      unfolding n str_of_nat_snoc [OF lt] unpad_snoc
      using z ih d by (simp add: digit_char_val)
  qed
qed

lemma str_of_int_dec: "digits ds \<Longrightarrow> str_of_int (dec ds) = unpad ds"
  using dec_nonneg [of ds] by (simp add: str_of_int_def str_of_nat_dec digits_def)

lemma is_digit_not_underscore: "is_digit c \<Longrightarrow> c \<noteq> CHR ''_''"
  by (simp add: is_digit_plain)

lemma digit_groups_all: "list_all is_digit ds \<Longrightarrow> ds \<noteq> [] \<Longrightarrow> digit_groups ds"
proof (induction ds rule: digit_groups.induct)
  case 1
  then show ?case by simp
next
  case (2 c)
  then show ?case by simp
next
  case (3 c d r)
  then have "d \<noteq> CHR ''_''" by (simp add: is_digit_not_underscore)
  with 3 show ?case by simp
qed

lemma digit_groups_digits: "digits ds \<Longrightarrow> digit_groups ds"
  by (simp add: digits_def digit_groups_all)

lemma strip_digits: "digits ds \<Longrightarrow> strip ds = ds"
proof -
  assume a: "digits ds"
  then have ne: "ds \<noteq> []" and h: "is_digit (hd ds)" and l: "is_digit (last ds)"
    by (simp_all add: digits_def list_all_iff)
  from h l have h': "\<not> is_space (hd ds)" and l': "\<not> is_space (last ds)"
    by (simp_all add: is_digit_plain)
  from ne h' have 1: "dropWhile is_space ds = ds" by (cases ds) simp_all
  from ne l' have 2: "dropWhile is_space (rev ds) = rev ds"
    by (cases "rev ds") (simp_all add: hd_rev [symmetric])
  show ?thesis by (simp add: strip_def 1 2)
qed

lemma filter_digits: "digits ds \<Longrightarrow> filter (\<lambda>c. c \<noteq> CHR ''_'') ds = ds"
  by (simp add: digits_def list_all_iff filter_id_conv is_digit_not_underscore)

lemma py_int_digits: "digits ds \<Longrightarrow> py_int ds = Inr (dec ds)"
proof -
  assume a: "digits ds"
  then have "ds \<noteq> []" and "is_digit (hd ds)"
    by (simp_all add: digits_def list_all_iff)
  then have "ds \<noteq> []" "hd ds \<noteq> CHR ''-''" "hd ds \<noteq> CHR ''+''"
    by (simp_all add: is_digit_plain)
  with a show ?thesis
    by (simp add: py_int_def strip_digits digit_groups_digits filter_digits)
qed

lemma decode_digits: "digits t \<Longrightarrow> digits q \<Longrightarrow> decode t = Inr t \<and> decode (t @ ''-'' @ q) = Inr (t @ ''-'' @ q)"
  by (auto simp: decode_def ascii_def digits_def list_all_iff is_digit_plain)

lemma digits_no_dash: "digits t \<Longrightarrow> CHR ''-'' \<notin> set t"
  using is_digit_plain [of "CHR ''-''"] by (auto simp: digits_def list_all_iff)

lemma parse_str_ts: "digits t \<Longrightarrow> parse_str t = Inr (dec t, 0)"
  using decode_digits [of t t]
  by (simp add: parse_str_def split_no_sep digits_no_dash py_int_digits)

lemma parse_str_ts_seq: "digits t \<Longrightarrow> digits q \<Longrightarrow> parse_str (t @ ''-'' @ q) = Inr (dec t, dec q)"
  using decode_digits [of t q]
  by (simp add: parse_str_def split_append split_no_sep digits_no_dash py_int_digits)

lemma str_of_int_0: "str_of_int 0 = ''0''"
  by (simp add: str_of_int_def str_of_nat_small digit_char_def)

lemma canonical_ts: "digits t \<Longrightarrow> canonical t = unpad t @ ''-0''"
  by (simp add: canonical_def split_no_sep digits_no_dash)

lemma canonical_ts_seq: "digits t \<Longrightarrow> digits q \<Longrightarrow> canonical (t @ ''-'' @ q) = unpad t @ ''-'' @ unpad q"
  by (simp add: canonical_def split_append split_no_sep digits_no_dash)

text \<open>
  Claim C6. For a key string \<open>t\<close> or \<open>t-q\<close> whose components are non-empty strings of
  decimal digits, \<open>parse_str\<close> returns the key \<open>(t, 0)\<close>, respectively \<open>(t, q)\<close>, read
  as numbers, and encoding the parsed key gives the canonical text of the string: both
  numbers without zero padding, joined by a dash.
\<close>

theorem encode_parse_canonical:
  assumes "digits t" and "digits q"
  shows "parse_str t = Inr (dec t, 0) \<and>
         parse_str (t @ ''-'' @ q) = Inr (dec t, dec q) \<and>
         map_sum id encode (parse_str t) = Inr (canonical t) \<and>
         map_sum id encode (parse_str (t @ ''-'' @ q)) = Inr (canonical (t @ ''-'' @ q))"
proof -
  have 1: "parse_str t = Inr (dec t, 0)"
    using assms by (rule_tac parse_str_ts)
  have 2: "parse_str (t @ ''-'' @ q) = Inr (dec t, dec q)"
    using assms by (rule parse_str_ts_seq)
  have 3: "encode (dec t, 0) = canonical t"
    using assms by (simp add: encode_def str_of_int_dec str_of_int_0 canonical_ts)
  have 4: "encode (dec t, dec q) = canonical (t @ ''-'' @ q)"
    unfolding canonical_ts_seq [OF assms] using assms by (simp add: encode_def str_of_int_dec)
  show ?thesis unfolding 1 2 using 3 4 by simp
qed

theorem encode_parse_canonical_witness:
  "parse_str ''007'' = Inr (7, 0) \<and> parse_str ''007-010'' = Inr (7, 10) \<and>
   map_sum id encode (parse_str ''007'') = Inr ''7-0'' \<and>
   map_sum id encode (parse_str ''007-010'') = Inr ''7-10''"
proof -
  have a: "digits ''007''" and b: "digits ''010''" by (simp_all add: digits_def is_digit_def)
  have c: "canonical ''007'' = ''7-0''" "canonical ''007-010'' = ''7-10''"
    by (simp_all add: canonical_def unpad_def)
  have d: "dec ''007'' = 7" "dec ''010'' = 10" by (simp_all add: dec_def digit_val_def)
  from encode_parse_canonical [OF a b] show ?thesis unfolding d using c by auto
qed


lemmas eval_key =
  parse_str_def decode_def ascii_def py_int_def strip_def is_space_def is_digit_def dec_def digit_val_def
  encode_def str_of_int_def str_of_nat_small digit_char_def

lemmas eval_stream =
  add_def resolve_key_def generated_key_def XStream_init_def run_def delete_def trim_def len_def
  find_index_key_as_str_def find_index_def py_index_def py_del_def py_slice_def py_slice_from_def
  slice_bound_def keys_of_def

text \<open>
  Claim C10. A key string with more than two components between dashes, whose first two
  components are accepted by \<^verbatim>\<open>int\<close>, is parsed without an error: the key is built from
  the first two components, and the components after the second are ignored.
\<close>

theorem parse_str_extra_components:
  assumes "ascii k" and "split CHR ''-'' k = a # b # c # rest"
    and "py_int a = Inr x" and "py_int b = Inr y"
  shows "parse_str k = Inr (x, y)"
  using assms by (simp add: parse_str_def decode_def)

theorem parse_str_extra_components_witness:
  "ascii ''5-3-9'' \<and> split CHR ''-'' ''5-3-9'' = [''5'', ''3'', ''9''] \<and> parse_str ''5-3-9'' = Inr (5, 3)"
proof -
  have a: "ascii ''5-3-9''" by (simp add: ascii_def)
  have b: "split CHR ''-'' ''5-3-9'' = ''5'' # ''3'' # ''9'' # []" by simp
  have c: "py_int ''5'' = Inr 5" "py_int ''3'' = Inr 3" by (simp_all add: eval_key)
  from parse_str_extra_components [OF a b c] a b show ?thesis by simp
qed

lemma ts_star_shape:
  assumes "digits t"
  shows "decode (t @ ''-*'') = Inr (t @ ''-*'')" and "split CHR ''-'' (t @ ''-*'') = [t, ''*'']"
    and "t @ ''-*'' \<noteq> ''*''" and "last (t @ ''-*'') = CHR ''*''"
proof -
  from assms show "decode (t @ ''-*'') = Inr (t @ ''-*'')"
    by (auto simp: decode_def ascii_def digits_def list_all_iff is_digit_plain)
  from assms show "split CHR ''-'' (t @ ''-*'') = [t, ''*'']"
    by (simp add: split_append digits_no_dash)
  show "t @ ''-*'' \<noteq> ''*''" by (cases t) simp_all
  show "last (t @ ''-*'') = CHR ''*''" by simp
qed

lemma resolve_key_ts_star:
  assumes "digits t"
  shows "resolve_key s (Some (t @ ''-*'')) now =
     Inr (Some (dec t, if stream_values s \<noteq> [] \<and> ts (key (last (stream_values s))) = dec t
                       then seq (key (last (stream_values s))) + 1 else 0))"
  using ts_star_shape [OF assms] py_int_digits [OF assms]
  by (auto simp: resolve_key_def Let_def)

text \<open>
  Claim C7. With a key \<open>t-*\<close>, \<open>t\<close> a string of decimal digits, \<^verbatim>\<open>add\<close> takes the given
  timestamp; the sequence number is 0 unless the last stored key has the same timestamp,
  and then it is that key's sequence number plus 1. The key is refused only when the last
  stored timestamp is greater. On an empty stream, two such calls with \<open>5-*\<close> return
  \<open>5-0\<close> and then \<open>5-1\<close>.
\<close>

theorem add_ts_star:
  assumes "digits t" and "even (length flds)"
  shows "add s flds (Some (t @ ''-*'')) now =
     (let q = (if stream_values s \<noteq> [] \<and> ts (key (last (stream_values s))) = dec t
               then seq (key (last (stream_values s))) + 1 else 0)
      in if stream_values s \<noteq> [] \<and> dec t < ts (key (last (stream_values s))) then (Inr None, s)
         else (Inr (Some (encode (dec t, q))),
               s\<lparr>stream_values := stream_values s @ [\<lparr>key = (dec t, q), entry_fields = flds\<rparr>],
                 entries_added := entries_added s + 1\<rparr>)) \<and>
   fst (add XStream_init [''a'', ''1''] (Some ''5-*'') now) = Inr (Some ''5-0'') \<and>
   fst (add (snd (add XStream_init [''a'', ''1''] (Some ''5-*'') now)) [''a'', ''1''] (Some ''5-*'') now')
     = Inr (Some ''5-1'')"
proof -
  have 1: "fst (add XStream_init [''a'', ''1''] (Some ''5-*'') now) = Inr (Some ''5-0'')"
    by (simp add: eval_key eval_stream)
  have 2: "fst (add (snd (add XStream_init [''a'', ''1''] (Some ''5-*'') now)) [''a'', ''1''] (Some ''5-*'') now')
     = Inr (Some ''5-1'')"
    by (simp add: eval_key eval_stream)
  have 3: "add s flds (Some (t @ ''-*'')) now =
     (let q = (if stream_values s \<noteq> [] \<and> ts (key (last (stream_values s))) = dec t
               then seq (key (last (stream_values s))) + 1 else 0)
      in if stream_values s \<noteq> [] \<and> dec t < ts (key (last (stream_values s))) then (Inr None, s)
         else (Inr (Some (encode (dec t, q))),
               s\<lparr>stream_values := stream_values s @ [\<lparr>key = (dec t, q), entry_fields = flds\<rparr>],
                 entries_added := entries_added s + 1\<rparr>))"
    using assms(2) unfolding add_def resolve_key_ts_star [OF assms(1)]
    by (cases "key (last (stream_values s))") (auto simp: Let_def)
  from 1 2 3 show ?thesis by (intro conjI)
qed

theorem add_ts_star_witness:
  "digits ''7'' \<and> even (length [''a'', ''1'']) \<and>
   add \<lparr>stream_values = [\<lparr>key = (7, 4), entry_fields = []\<rparr>], stream_groups = [],
        max_deleted_id = (0, 0), entries_added = 1\<rparr> [''a'', ''1''] (Some ''7-*'') 0 =
     (Inr (Some ''7-5''),
      \<lparr>stream_values = [\<lparr>key = (7, 4), entry_fields = []\<rparr>, \<lparr>key = (7, 5), entry_fields = [''a'', ''1'']\<rparr>],
       stream_groups = [], max_deleted_id = (0, 0), entries_added = 2\<rparr>)"
proof -
  have a: "digits ''7''" by (simp add: digits_def is_digit_def)
  have b: "even (length [''a'', ''1''])" by simp
  have d: "dec ''7'' = 7" by (simp add: dec_def digit_val_def)
  have e: "encode (7, 5) = ''7-5''" by (simp add: eval_key)
  from add_ts_star [OF a b, of "\<lparr>stream_values = [\<lparr>key = (7, 4), entry_fields = []\<rparr>], stream_groups = [],
        max_deleted_id = (0, 0), entries_added = 1\<rparr>" 0]
  have "add \<lparr>stream_values = [\<lparr>key = (7, 4), entry_fields = []\<rparr>], stream_groups = [],
        max_deleted_id = (0, 0), entries_added = 1\<rparr> [''a'', ''1''] (Some ''7-*'') 0 =
     (Inr (Some ''7-5''),
      \<lparr>stream_values = [\<lparr>key = (7, 4), entry_fields = []\<rparr>, \<lparr>key = (7, 5), entry_fields = [''a'', ''1'']\<rparr>],
       stream_groups = [], max_deleted_id = (0, 0), entries_added = 2\<rparr>)"
    unfolding d by (simp add: e)
  with a b show ?thesis by (intro conjI)
qed

lemma add_entries_added:
  "entries_added (snd (add s flds k now)) =
     entries_added s + (case fst (add s flds k now) of Inr (Some _) \<Rightarrow> 1 | _ \<Rightarrow> 0)"
  by (simp add: add_def split: sum.splits option.splits)

lemma delete_loop_entries_added: "entries_added (snd (delete_loop s lst res)) = entries_added s"
  by (induction lst arbitrary: s res) (simp_all split: sum.splits prod.splits)

lemma trim_entries_added: "entries_added (snd (trim s m k l)) = entries_added s"
  by (simp add: trim_def Let_def split: sum.splits option.splits prod.splits)

text \<open>
  Claim C8. \<^verbatim>\<open>add\<close> increments \<open>entries_added\<close> by exactly 1 when it returns a key and
  leaves it unchanged otherwise; \<^verbatim>\<open>delete\<close> and \<^verbatim>\<open>trim\<close> leave it unchanged, whatever
  they remove and also when they raise; no operation decrements it.
\<close>

theorem entries_added_frame:
  "entries_added (snd (add s flds k now)) =
     entries_added s + (case fst (add s flds k now) of Inr (Some _) \<Rightarrow> 1 | _ \<Rightarrow> 0) \<and>
   entries_added (snd (delete s lst)) = entries_added s \<and>
   entries_added (snd (trim s m sk l)) = entries_added s \<and>
   entries_added s \<le> entries_added (apply_op s op)"
proof -
  have "entries_added s \<le> entries_added (apply_op s op)"
    by (cases op) (simp_all add: add_entries_added delete_def delete_loop_entries_added
        trim_entries_added split: sum.splits option.splits)
  then show ?thesis
    by (simp add: add_entries_added delete_def delete_loop_entries_added trim_entries_added)
qed

lemma py_index_last: "xs \<noteq> [] \<Longrightarrow> py_index xs (int (length xs) - 1) = Inr (last xs)"
  by (cases xs rule: rev_cases) (simp_all add: py_index_def Let_def nat_diff_distrib')

lemma py_del_last: "xs \<noteq> [] \<Longrightarrow> py_del xs (int (length xs) - 1) = Inr (butlast xs)"
  by (cases xs rule: rev_cases) (simp_all add: py_del_def Let_def)

lemma py_index_Nil: "py_index [] i = Inl IndexError"
  by (simp add: py_index_def Let_def)

text \<open>
  Claim C9. For the key string \<open>$\<close> the lookup reports an exact match at index
  \<open>max (len - 1) 0\<close>, although \<open>$\<close> is not the text of a key. So when the loop of
  \<^verbatim>\<open>delete\<close> reaches \<open>$\<close>, it removes the last stored entry of a non-empty stream and
  counts it, and on an empty stream the index access raises \<open>IndexError\<close>: the call does
  not return 0.
\<close>

theorem delete_dollar:
  "find_index_key_as_str s ''$'' = Inr (max (len s - 1) 0, True) \<and>
   parse_str ''$'' = Inl ValueError \<and>
   delete_loop s (''$'' # lst) res =
     (if stream_values s = [] then (Inl IndexError, s)
      else delete_loop
             (s\<lparr>max_deleted_id := max (key (last (stream_values s))) (max_deleted_id s),
                stream_values := butlast (stream_values s)\<rparr>) lst (res + 1)) \<and>
   delete s [''$''] =
     (if stream_values s = [] then (Inl IndexError, s)
      else (Inr 1, s\<lparr>max_deleted_id := max (key (last (stream_values s))) (max_deleted_id s),
                     stream_values := butlast (stream_values s)\<rparr>))"
proof -
  have 1: "find_index_key_as_str s ''$'' = Inr (max (len s - 1) 0, True)"
    by (simp add: find_index_key_as_str_def)
  have 2: "parse_str ''$'' = Inl ValueError"
    by (simp add: eval_key)
  have 3: "delete_loop s (''$'' # lst) res =
     (if stream_values s = [] then (Inl IndexError, s)
      else delete_loop
             (s\<lparr>max_deleted_id := max (key (last (stream_values s))) (max_deleted_id s),
                stream_values := butlast (stream_values s)\<rparr>) lst (res + 1))" for lst res
  proof (cases "stream_values s = []")
    case True
    then show ?thesis by (simp add: 1 len_def py_index_Nil)
  next
    case False
    then have "max (len s - 1) 0 = int (length (stream_values s)) - 1"
      by (cases "stream_values s") (simp_all add: len_def)
    with False show ?thesis by (simp add: 1 py_index_last py_del_last)
  qed
  have 4: "delete s [''$''] =
     (if stream_values s = [] then (Inl IndexError, s)
      else (Inr 1, s\<lparr>max_deleted_id := max (key (last (stream_values s))) (max_deleted_id s),
                     stream_values := butlast (stream_values s)\<rparr>))"
    unfolding delete_def 3 by simp
  from 1 2 3 4 show ?thesis by (intro conjI)
qed

text \<open>
  Claim C1 says that an append whose key is less than or equal to the last stored key is
  refused and changes nothing. The comparison in \<^verbatim>\<open>add\<close> is strict: a key equal to the
  last stored key is appended a second time, the key is returned and \<open>entries_added\<close>
  grows.
\<close>

theorem add_equal_key_accepted:
  "add (snd (add XStream_init [] (Some ''5-0'') now)) [] (Some ''5-0'') now' =
   (Inr (Some ''5-0''),
    \<lparr>stream_values = [\<lparr>key = (5, 0), entry_fields = []\<rparr>, \<lparr>key = (5, 0), entry_fields = []\<rparr>],
     stream_groups = [], max_deleted_id = (0, 0), entries_added = 2\<rparr>)"
  by (simp add: eval_key eval_stream)

text \<open>
  Claim C2 says that after every run of operations from the empty stream the stored keys
  are strictly increasing. Two appends of the key \<open>5-0\<close> leave the key twice in the
  stream.
\<close>

theorem run_duplicate_keys:
  "keys_of (run [Add [] (Some ''5-0'') 0, Add [] (Some ''5-0'') 0]) = [(5, 0), (5, 0)] \<and>
   \<not> sorted_wrt (<) (keys_of (run [Add [] (Some ''5-0'') 0, Add [] (Some ''5-0'') 0]))"
  by (simp add: eval_key eval_stream)

text \<open>
  Claim C3 says that a negative cut is clamped to 0 and that \<^verbatim>\<open>trim\<close> returns the number of
  entries it removed. With a limit, the cut is computed from the unclamped index: on three
  entries, \<open>max_length = 4\<close> and \<open>limit = 10\<close> give the cut \<open>-1\<close>, the slice keeps only the
  last entry, and the call returns \<open>-1\<close>.
\<close>

theorem trim_limit_negative_cut:
  "trim \<lparr>stream_values = [\<lparr>key = (1, 0), entry_fields = []\<rparr>, \<lparr>key = (2, 0), entry_fields = []\<rparr>,
                            \<lparr>key = (3, 0), entry_fields = []\<rparr>],
         stream_groups = [], max_deleted_id = (0, 0), entries_added = 3\<rparr> (Some 4) None (Some 10) =
   (Inr (- 1),
    \<lparr>stream_values = [\<lparr>key = (3, 0), entry_fields = []\<rparr>],
     stream_groups = [], max_deleted_id = (0, 0), entries_added = 3\<rparr>)"
  by (simp add: eval_stream)

subsection \<open>Bisection\<close>

lemma bisect_left_loop_stop: "\<not> lo < hi \<Longrightarrow> bisect_left_loop a x lo hi = lo"
  by (subst bisect_left_loop.simps) simp

lemma bisect_left_loop_less:
  "lo < hi \<Longrightarrow> a ! ((lo + hi) div 2) < x \<Longrightarrow>
   bisect_left_loop a x lo hi = bisect_left_loop a x ((lo + hi) div 2 + 1) hi"
  by (subst bisect_left_loop.simps) (simp add: Let_def)

lemma bisect_left_loop_geq:
  "lo < hi \<Longrightarrow> \<not> a ! ((lo + hi) div 2) < x \<Longrightarrow>
   bisect_left_loop a x lo hi = bisect_left_loop a x lo ((lo + hi) div 2)"
  by (subst bisect_left_loop.simps) (simp add: Let_def)

lemma bisect_left_loop_bounds:
  "lo \<le> hi \<Longrightarrow> lo \<le> bisect_left_loop a x lo hi \<and> bisect_left_loop a x lo hi \<le> hi"
proof (induction a x lo hi rule: bisect_left_loop.induct)
  case (1 a x lo hi)
  show ?case
  proof (cases "lo < hi")
    case False
    with "1.prems" show ?thesis by (simp add: bisect_left_loop_stop)
  next
    case True
    define mid where "mid = (lo + hi) div 2"
    from True have m: "lo \<le> mid" "mid < hi" by (simp_all add: mid_def)
    show ?thesis
    proof (cases "a ! mid < x")
      case less: True
      from m have "mid + 1 \<le> hi" by simp
      from "1.IH"(1) [OF True mid_def less this] m
      show ?thesis unfolding bisect_left_loop_less [OF True less [unfolded mid_def]] mid_def by simp
    next
      case geq: False
      from "1.IH"(2) [OF True mid_def geq m(1)] m
      show ?thesis unfolding bisect_left_loop_geq [OF True geq [unfolded mid_def]] mid_def by simp
    qed
  qed
qed

lemma bisect_left_le_length: "bisect_left a x \<le> length a"
  using bisect_left_loop_bounds [of 0 "length a" a x] by (simp add: bisect_left_def)

lemma bisect_left_loop_sorted:
  assumes "sorted a" and "lo \<le> hi" and "hi \<le> length a"
    and "\<forall>i<lo. a ! i < x" and "\<forall>i. hi \<le> i \<and> i < length a \<longrightarrow> x \<le> a ! i"
  shows "(\<forall>i<bisect_left_loop a x lo hi. a ! i < x) \<and>
         (\<forall>i. bisect_left_loop a x lo hi \<le> i \<and> i < length a \<longrightarrow> x \<le> a ! i)"
  using assms
proof (induction a x lo hi rule: bisect_left_loop.induct)
  case (1 a x lo hi)
  show ?case
  proof (cases "lo < hi")
    case False
    with "1.prems" have "hi = lo" by simp
    with "1.prems" False show ?thesis by (simp add: bisect_left_loop_stop)
  next
    case True
    define mid where "mid = (lo + hi) div 2"
    from True have m: "lo \<le> mid" "mid < hi" by (simp_all add: mid_def)
    with "1.prems" have ml: "mid < length a" by simp
    show ?thesis
    proof (cases "a ! mid < x")
      case less: True
      have below: "\<forall>i<mid + 1. a ! i < x"
      proof (intro allI impI)
        fix i assume "i < mid + 1"
        then have "a ! i \<le> a ! mid" using sorted_nth_mono [OF "1.prems"(1), of i mid] ml by simp
        with less show "a ! i < x" by simp
      qed
      from m have le: "mid + 1 \<le> hi" by simp
      from "1.IH"(1) [OF True mid_def less "1.prems"(1) le "1.prems"(3) below "1.prems"(5)]
      show ?thesis unfolding bisect_left_loop_less [OF True less [unfolded mid_def]] mid_def .
    next
      case geq: False
      have above: "\<forall>i. mid \<le> i \<and> i < length a \<longrightarrow> x \<le> a ! i"
      proof (intro allI impI)
        fix i assume "mid \<le> i \<and> i < length a"
        then have "a ! mid \<le> a ! i" using sorted_nth_mono [OF "1.prems"(1), of mid i] by simp
        with geq show "x \<le> a ! i" by simp
      qed
      from m "1.prems" have le: "mid \<le> length a" by simp
      from "1.IH"(2) [OF True mid_def geq "1.prems"(1) m(1) le "1.prems"(4) above]
      show ?thesis unfolding bisect_left_loop_geq [OF True geq [unfolded mid_def]] mid_def .
    qed
  qed
qed

lemma bisect_left_sorted:
  "sorted a \<Longrightarrow> (\<forall>i<bisect_left a x. a ! i < x) \<and> (\<forall>i. bisect_left a x \<le> i \<and> i < length a \<longrightarrow> x \<le> a ! i)"
proof -
  assume s: "sorted a"
  have v: "\<forall>i. length a \<le> i \<and> i < length a \<longrightarrow> x \<le> a ! i" by auto
  have u: "\<forall>i<0::nat. a ! i < x" by simp
  from bisect_left_loop_sorted [OF s _ _ u v] show ?thesis by (simp add: bisect_left_def)
qed

lemma bisect_left_Nil: "bisect_left [] x = 0"
  by (simp add: bisect_left_def bisect_left_loop_stop)

lemma find_index_left: "fst (find_index s k True) = int (bisect_left (keys_of s) k)"
  by (simp add: find_index_def keys_of_def Let_def bisect_left_Nil)

lemma find_index_le_len: "fst (find_index s k True) \<le> len s"
  using bisect_left_le_length [of "keys_of s" k] by (simp add: find_index_left len_def keys_of_def)

lemma group_lag_value:
  "group_lag g s =
     Inr (if fst (find_index s (start_key g) True) + or0 (entries_read g) > len s
          then len s - fst (find_index s (start_key g) True) - or0 (entries_read g)
          else len s - 1 - fst (find_index s (last_delivered_key g) True))"
  using find_index_le_len [of s "start_key g"]
  by (cases "entries_read g") (simp_all add: group_lag_def Let_def or0_def)

text \<open>
  Claim C4. \<^verbatim>\<open>group_info\<close> never raises, and the lag it reports is: with
  \<open>start_index\<close> and \<open>last_delivered_index\<close> the results of the leftmost bisection for
  the group's start key and last delivered key, and \<open>entries_read\<close> taken as 0 when it
  is unknown, \<open>len - start_index - entries_read\<close> when \<open>start_index + entries_read\<close>
  exceeds the length of the stream, and \<open>len - 1 - last_delivered_index\<close> otherwise. The
  first branch reads \<open>entries_read\<close> without the default, but it is never entered while
  \<open>entries_read\<close> is unknown, since a bisection index is at most the length.
\<close>

theorem group_info_lag:
  "map_sum id info_lag (group_info g s) =
     Inr (let start_index = int (bisect_left (keys_of s) (start_key g));
              last_delivered_index = int (bisect_left (keys_of s) (last_delivered_key g))
          in if start_index + or0 (entries_read g) > len s
             then len s - start_index - or0 (entries_read g)
             else len s - 1 - last_delivered_index)"
  by (simp add: group_info_def group_lag_value find_index_left Let_def)

lemmas eval_bisect =
  bisect_left_def bisect_left_loop_less bisect_left_loop_geq bisect_left_loop_stop

lemmas eval_group =
  group_read_def stream_read_def StreamGroup_init_def StreamConsumerInfo_init_def format_record_def
  or0_def

lemma dup_stream:
  "run [Add [] (Some ''5-0'') 0, Add [] (Some ''5-0'') 0] =
     \<lparr>stream_values = [\<lparr>key = (5, 0), entry_fields = []\<rparr>, \<lparr>key = (5, 0), entry_fields = []\<rparr>],
      stream_groups = [], max_deleted_id = (0, 0), entries_added = 2\<rparr>"
  by (simp add: eval_key eval_stream)

lemma dup_first_read:
  "group_read (StreamGroup_init ''g'' (0, 0) None)
     \<lparr>stream_values = [\<lparr>key = (5, 0), entry_fields = []\<rparr>, \<lparr>key = (5, 0), entry_fields = []\<rparr>],
      stream_groups = [], max_deleted_id = (0, 0), entries_added = 2\<rparr>
     ''c'' ''>'' (Some 1) False clk =
   (Inr [(''5-0'', [])],
    \<lparr>group_name = ''g'', start_key = (0, 0), entries_read = Some 1,
     consumers = [(''c'', \<lparr>name = ''c'', pending = 1, last_attempt = attempt_time clk,
                           last_success = success_time clk\<rparr>)],
     last_delivered_key = (5, 0), last_ack_key = (0, 0), pel = {(5, 0)}\<rparr>)"
  by (simp add: eval_key eval_group eval_bisect find_index_def len_def py_slice_def slice_bound_def Let_def)

lemma dup_second_read:
  "group_read
    \<lparr>group_name = ''g'', start_key = (0, 0), entries_read = Some 1,
     consumers = [(''c'', \<lparr>name = ''c'', pending = 1, last_attempt = attempt_time clk,
                           last_success = success_time clk\<rparr>)],
     last_delivered_key = (5, 0), last_ack_key = (0, 0), pel = {(5, 0)}\<rparr>
     \<lparr>stream_values = [\<lparr>key = (5, 0), entry_fields = []\<rparr>, \<lparr>key = (5, 0), entry_fields = []\<rparr>],
      stream_groups = [], max_deleted_id = (0, 0), entries_added = 2\<rparr>
     ''c'' ''>'' (Some 1) False clk =
   (Inr [(''5-0'', [])],
    \<lparr>group_name = ''g'', start_key = (0, 0), entries_read = Some 2,
     consumers = [(''c'', \<lparr>name = ''c'', pending = 2, last_attempt = attempt_time clk,
                           last_success = success_time clk\<rparr>)],
     last_delivered_key = (5, 0), last_ack_key = (0, 0), pel = {(5, 0)}\<rparr>)"
  by (simp add: eval_key eval_group eval_bisect find_index_def len_def py_slice_def slice_bound_def Let_def)

text \<open>
  Claim C5 says that a read of new messages (\<open>>\<close>, with acknowledgement) never returns a
  key an earlier such read of the group returned. Once the key \<open>5-0\<close> is stored twice (two
  appends of the same key, both accepted), a group created at \<open>0-0\<close> that reads one entry
  at a time gets \<open>5-0\<close> from the first read and \<open>5-0\<close> again from the second, although its
  last delivered key is already \<open>5-0\<close>.
\<close>

theorem group_read_redelivers_equal_key:
  "(let s = run [Add [] (Some ''5-0'') 0, Add [] (Some ''5-0'') 0];
        g0 = StreamGroup_init ''g'' (0, 0) None;
        r1 = group_read g0 s ''c'' ''>'' (Some 1) False clk;
        r2 = group_read (snd r1) s ''c'' ''>'' (Some 1) False clk
    in fst r1 = Inr [(''5-0'', [])] \<and> last_delivered_key (snd r1) = (5, 0) \<and>
       fst r2 = Inr [(''5-0'', [])])"
  unfolding Let_def dup_stream dup_first_read snd_conv fst_conv dup_second_read
  by simp

subsection \<open>What holds around the strict comparison of add\<close>

lemma add_smaller_key_rejected:
  assumes "even (length flds)" and "resolve_key s k now = Inr (Some ts_seq)"
    and "stream_values s \<noteq> []" and "ts_seq < key (last (stream_values s))"
  shows "add s flds k now = (Inr None, s)"
  using assms by (simp add: add_def)

lemma add_None_unchanged: "fst (add s flds k now) = Inr None \<Longrightarrow> snd (add s flds k now) = s"
  by (simp add: add_def split: if_splits sum.splits option.splits)

lemma add_error_unchanged: "fst (add s flds k now) = Inl e \<Longrightarrow> snd (add s flds k now) = s"
  by (simp add: add_def split: if_splits sum.splits option.splits)

subsection \<open>The stored keys stay sorted, not strictly\<close>

lemma sorted_snoc_last: "sorted xs \<Longrightarrow> xs \<noteq> [] \<Longrightarrow> last xs \<le> (k::'a::linorder) \<Longrightarrow> sorted (xs @ [k])"
proof -
  assume s: "sorted xs" and ne: "xs \<noteq> []" and l: "last xs \<le> k"
  have "x \<le> k" if "x \<in> set xs" for x
  proof -
    from that obtain i where i: "i < length xs" "xs ! i = x" by (auto simp: in_set_conv_nth)
    with s ne have "x \<le> last xs"
      using sorted_nth_mono [of xs i "length xs - 1"] by (simp add: last_conv_nth)
    with l show ?thesis by simp
  qed
  with s show ?thesis by (simp add: sorted_wrt_append)
qed

lemma sorted_drop_any: "sorted (xs::'a::linorder list) \<Longrightarrow> sorted (drop n xs)"
  using sorted_wrt_append [of "(\<le>)" "take n xs" "drop n xs"] by simp

lemma sorted_take_any: "sorted (xs::'a::linorder list) \<Longrightarrow> sorted (take n xs)"
  using sorted_wrt_append [of "(\<le>)" "take n xs" "drop n xs"] by simp

lemma in_set_drop_nth: "y \<in> set (drop n xs) \<Longrightarrow> \<exists>j. n \<le> j \<and> j < length xs \<and> xs ! j = y"
proof -
  assume "y \<in> set (drop n xs)"
  then obtain i where i: "i < length xs - n" "drop n xs ! i = y"
    by (auto simp: in_set_conv_nth)
  then have "n \<le> n + i \<and> n + i < length xs \<and> xs ! (n + i) = y" by simp
  then show ?thesis by blast
qed

lemma sorted_remove_nth: "sorted (xs::'a::linorder list) \<Longrightarrow> sorted (take n xs @ drop (Suc n) xs)"
proof -
  assume s: "sorted xs"
  have le: "\<forall>x\<in>set (take n xs). \<forall>y\<in>set (drop (Suc n) xs). x \<le> y"
  proof (intro ballI)
    fix x y
    assume x: "x \<in> set (take n xs)" and y: "y \<in> set (drop (Suc n) xs)"
    from x obtain i where i: "i < length (take n xs)" "take n xs ! i = x"
      unfolding in_set_conv_nth by blast
    then have i': "i < n" "i < length xs" "xs ! i = x" by simp_all
    from in_set_drop_nth [OF y] obtain j where j: "Suc n \<le> j" "j < length xs" "xs ! j = y"
      by blast
    from i' j have "i \<le> j" by simp
    from sorted_nth_mono [OF s this j(2)] i' j show "x \<le> y" by simp
  qed
  from sorted_take_any [OF s] sorted_drop_any [OF s] le
  show ?thesis unfolding sorted_wrt_append by blast
qed

lemma add_sorted: "sorted (keys_of s) \<Longrightarrow> sorted (keys_of (snd (add s flds k now)))"
proof (cases "stream_values s = []")
  case True
  then show ?thesis
    by (simp add: add_def keys_of_def split: sum.splits option.splits)
next
  case False
  assume s: "sorted (keys_of s)"
  have "sorted (keys_of s @ [q])" if "\<not> q < key (last (stream_values s))" for q
    using that s False by (intro sorted_snoc_last) (simp_all add: keys_of_def last_map)
  with s False show ?thesis
    by (simp add: add_def keys_of_def split: sum.splits option.splits)
qed

lemma delete_loop_sorted:
  "sorted (keys_of s) \<Longrightarrow> sorted (keys_of (snd (delete_loop s lst res)))"
proof (induction lst arbitrary: s res)
  case Nil
  then show ?case by simp
next
  case (Cons item lst)
  have step: "sorted (keys_of (s\<lparr>max_deleted_id := m, stream_values := vs\<rparr>))"
    if "py_del (stream_values s) ind = Inr vs" for m vs ind
    using that Cons.prems
    by (auto simp: py_del_def Let_def keys_of_def take_map [symmetric] drop_map [symmetric]
        sorted_remove_nth split: if_splits)
  show ?case
    using Cons.prems Cons.IH step
    by (auto simp: keys_of_def split: sum.splits prod.splits)
qed

lemma trim_sorted: "sorted (keys_of s) \<Longrightarrow> sorted (keys_of (snd (trim s m k l)))"
  by (auto simp: trim_def Let_def keys_of_def py_slice_from_def drop_map [symmetric] sorted_drop_any
      split: sum.splits option.splits prod.splits)

lemma apply_op_sorted: "sorted (keys_of s) \<Longrightarrow> sorted (keys_of (apply_op s op))"
  by (cases op) (simp_all add: add_sorted delete_def delete_loop_sorted trim_sorted)

lemma foldl_apply_op_sorted: "sorted (keys_of s) \<Longrightarrow> sorted (keys_of (foldl apply_op s ops))"
  by (induction ops arbitrary: s) (simp_all add: apply_op_sorted)

lemma run_sorted: "sorted (keys_of (run ops))"
  unfolding run_def by (rule foldl_apply_op_sorted) (simp add: keys_of_def XStream_init_def)

subsection \<open>trim without the limit, and with a limit on a cut that is not negative\<close>

lemma drop_min_length: "drop (min (length xs) n) xs = drop n xs"
  by (cases "n \<le> length xs") (simp_all add: min_def)

lemma trim_max_length:
  "trim s (Some m) None None =
     (Inr (max (len s - m) 0), s\<lparr>stream_values := drop (nat (len s - m)) (stream_values s)\<rparr>)"
  by (auto simp: trim_def Let_def py_slice_from_def slice_bound_def len_def max_def drop_min_length)

lemma trim_max_length_limit:
  "0 \<le> len s - m \<Longrightarrow> 0 \<le> l \<Longrightarrow>
   trim s (Some m) None (Some l) =
     (Inr (min (len s - m) l), s\<lparr>stream_values := drop (nat (min (len s - m) l)) (stream_values s)\<rparr>)"
  by (auto simp: trim_def Let_def py_slice_from_def slice_bound_def len_def drop_min_length)

lemma trim_removed_count:
  "0 \<le> m \<Longrightarrow> trim s (Some m) None None = (Inr n, s') \<Longrightarrow>
   0 \<le> n \<and> int (length (stream_values s')) = len s - n \<and> stream_values s' = drop (nat n) (stream_values s)"
  unfolding trim_max_length by (auto simp: len_def max_def)

subsection \<open>Reads on a stream whose keys are strictly increasing\<close>

lemma py_slice_nth:
  assumes "e \<in> set (py_slice xs i j)" and "0 \<le> i"
  shows "\<exists>n. nat i \<le> n \<and> n < length xs \<and> xs ! n = e"
proof -
  define a where "a = slice_bound (length xs) i"
  define b where "b = slice_bound (length xs) j"
  from assms(1) have "e \<in> set (drop a (take b xs))" by (simp add: py_slice_def a_def b_def)
  from in_set_drop_nth [OF this] obtain n where n: "a \<le> n" "n < length (take b xs)" "take b xs ! n = e"
    by blast
  then have l: "n < length xs" and v: "xs ! n = e" by simp_all
  from assms(2) have "a = min (length xs) (nat i)" by (simp add: a_def slice_bound_def)
  with n(1) l have "nat i \<le> n" by simp
  with l v show ?thesis by blast
qed

lemma find_index_left_pair:
  "stream_values s \<noteq> [] \<Longrightarrow>
   find_index s k True =
     (int (bisect_left (keys_of s) k),
      bisect_left (keys_of s) k < length (stream_values s) \<and>
      key (stream_values s ! bisect_left (keys_of s) k) = k)"
  by (simp add: find_index_def keys_of_def Let_def)

lemma stream_read_empty: "stream_values s = [] \<Longrightarrow> stream_read s k count = []"
  by (simp add: stream_read_def find_index_def len_def)

lemma stream_read_unfold:
  "stream_read s k count =
     (let start = (if snd (find_index s k True) then fst (find_index s k True) + 1
                   else fst (find_index s k True))
      in if start \<ge> len s then []
         else py_slice (stream_values s) start
                (case count of None \<Rightarrow> len s
                 | Some c \<Rightarrow> if start + c \<ge> len s then len s else start + c))"
  by (cases "find_index s k True"; cases count) (simp_all add: stream_read_def Let_def)

lemma stream_read_keys_greater:
  assumes strict: "sorted_wrt (<) (keys_of s)" and e: "e \<in> set (stream_read s k count)"
  shows "k < key e"
proof -
  define vs where "vs = stream_values s"
  define r where "r = bisect_left (keys_of s) k"
  define found where "found \<longleftrightarrow> r < length vs \<and> key (vs ! r) = k"
  define start where "start = (if found then int r + 1 else int r)"
  have ne: "vs \<noteq> []"
  proof
    assume "vs = []"
    with e show False by (simp add: stream_read_empty vs_def)
  qed
  then have fi: "find_index s k True = (int r, found)"
    by (simp add: find_index_left_pair vs_def r_def found_def)
  define end_ind where "end_ind = (case count of None \<Rightarrow> len s
     | Some c \<Rightarrow> if start + c \<ge> len s then len s else start + c)"
  have start_eq: "(if snd (find_index s k True) then fst (find_index s k True) + 1
                   else fst (find_index s k True)) = start"
    by (simp add: fi start_def)
  have sr: "stream_read s k count = (if start \<ge> len s then [] else py_slice vs start end_ind)"
    unfolding stream_read_unfold Let_def start_eq end_ind_def vs_def ..
  from e have sl: "e \<in> set (py_slice vs start end_ind)"
    unfolding sr by (cases "start \<ge> len s") simp_all
  have "0 \<le> start" by (simp add: start_def)
  from py_slice_nth [OF sl this] obtain n where n: "nat start \<le> n" "n < length vs" "vs ! n = e"
    by blast
  have keys: "keys_of s ! i = key (vs ! i)" if "i < length vs" for i
    using that by (simp add: keys_of_def vs_def)
  have len: "length (keys_of s) = length vs" by (simp add: keys_of_def vs_def)
  from strict have sorted: "sorted (keys_of s)" by (rule strict_sorted_imp_sorted)
  from bisect_left_sorted [OF sorted, of k]
  have ab: "\<forall>i. r \<le> i \<and> i < length vs \<longrightarrow> k \<le> keys_of s ! i"
    by (simp add: r_def len)
  have above: "k \<le> key (vs ! i)" if "r \<le> i" "i < length vs" for i
    using ab that keys [of i] by auto
  have mono: "key (vs ! i) < key (vs ! j)" if "i < j" "j < length vs" for i j
    using sorted_wrt_nth_less [OF strict, of i j] that keys [of i] keys [of j] by (simp add: len)
  show ?thesis
  proof (cases found)
    case True
    with n(1) have "r < n" by (simp add: start_def)
    from mono [OF this n(2)] True n(3) show ?thesis by (simp add: found_def)
  next
    case False
    with n(1) have rn: "r \<le> n" by (simp add: start_def)
    from above [OF rn n(2)] have le: "k \<le> key e" by (simp add: n(3))
    show ?thesis
    proof (cases "r = n")
      case True
      with False n have "key e \<noteq> k" by (auto simp: found_def)
      with le show ?thesis by simp
    next
      case neq: False
      with rn have "r < n" by simp
      from mono [OF this n(2)] above [of r] n(2) \<open>r < n\<close> show ?thesis by (simp add: n(3))
    qed
  qed
qed

lemma sorted_le_last: "sorted (xs::'a::linorder list) \<Longrightarrow> x \<in> set xs \<Longrightarrow> x \<le> last xs"
proof -
  assume s: "sorted xs" and x: "x \<in> set xs"
  then obtain i where i: "i < length xs" "xs ! i = x" by (auto simp: in_set_conv_nth)
  then have "xs \<noteq> []" by auto
  with s i show ?thesis
    using sorted_nth_mono [of xs i "length xs - 1"] by (simp add: last_conv_nth)
qed

lemma stream_read_sorted: "sorted (keys_of s) \<Longrightarrow> sorted (map key (stream_read s k count))"
  by (simp add: stream_read_def Let_def py_slice_def keys_of_def take_map [symmetric] drop_map [symmetric]
      sorted_take_any sorted_drop_any split: prod.splits)

lemma group_read_new_result:
  "fst (group_read g s c ''>'' count noack clk) =
     Inr (map format_record (stream_read s (last_delivered_key g) count))"
  by (simp add: group_read_def Let_def)

lemma group_read_new_pel:
  "pel (snd (group_read g s c ''>'' count False clk)) =
     pel g \<union> key ` set (stream_read s (last_delivered_key g) count)"
  by (simp add: group_read_def Let_def)

lemma group_read_new_cursor:
  "last_delivered_key (snd (group_read g s c ''>'' count noack clk)) =
     (let items = stream_read s (last_delivered_key g) count
      in if items = [] then last_delivered_key g
         else max (last_delivered_key g) (key (last items)))"
  by (simp add: group_read_def Let_def)

lemma group_read_new_messages:
  assumes "sorted_wrt (<) (keys_of s)" and "e \<in> set (stream_read s (last_delivered_key g) count)"
  shows "last_delivered_key g < key e"
    and "key e \<in> pel (snd (group_read g s c ''>'' count False clk))"
    and "key e \<le> last_delivered_key (snd (group_read g s c ''>'' count False clk))"
proof -
  from stream_read_keys_greater [OF assms] show "last_delivered_key g < key e" .
  from assms(2) show "key e \<in> pel (snd (group_read g s c ''>'' count False clk))"
    by (simp add: group_read_new_pel)
  from assms(1) have "sorted (keys_of s)" by (rule strict_sorted_imp_sorted)
  from sorted_le_last [OF stream_read_sorted [OF this], of "key e" "last_delivered_key g" count] assms(2)
  have "key e \<le> key (last (stream_read s (last_delivered_key g) count))"
    by (cases "stream_read s (last_delivered_key g) count = []") (simp_all add: last_map)
  with assms(2) show "key e \<le> last_delivered_key (snd (group_read g s c ''>'' count False clk))"
    by (auto simp: group_read_new_cursor Let_def le_max_iff_disj)
qed

lemma trim_min_key:
  assumes "k \<noteq> ''$''" and "parse_str k = Inr q"
  shows "trim s None (Some k) None =
     (Inr (int (bisect_left (keys_of s) q)),
      s\<lparr>stream_values := drop (bisect_left (keys_of s) q) (stream_values s)\<rparr>)"
proof -
  have fi: "find_index_key_as_str s k = Inr (find_index s q True)"
    using assms by (simp add: find_index_key_as_str_def)
  obtain b where ix: "find_index s q True = (int (bisect_left (keys_of s) q), b)"
    using find_index_left [of s q] by (cases "find_index s q True") simp
  have le: "bisect_left (keys_of s) q \<le> length (stream_values s)"
    using bisect_left_le_length [of "keys_of s" q] by (simp add: keys_of_def)
  show ?thesis
    using le by (simp add: trim_def fi ix Let_def py_slice_from_def slice_bound_def min_absorb2)
qed

subsection \<open>White space accepted by int\<close>

text \<open>
  A component that starts with the separator \<open>0x1C\<close> is refused, as any text \<^verbatim>\<open>int\<close> does
  not accept; a space or a tab around the digits is dropped.
\<close>

lemma py_int_separator_refused:
  "py_int [CHR 0x1C, CHR ''5''] = Inl ValueError \<and>
   parse_str ([CHR 0x1C] @ ''5-3-9'') = Inl ValueError \<and>
   py_int '' 5'' = Inr 5 \<and> parse_str (''5-'' @ [CHR 0x09] @ ''3-9'') = Inr (5, 3)"
  by (simp add: eval_key)

end
